theory Spec2Isabelle
  imports Complex_Main
begin

section \<open>Python strings\<close>

text \<open>
  A Python \<open>str\<close> is the list of its code points, so \<open>len\<close> is \<open>length\<close> and a slice
  \<open>s[:n]\<close> is \<open>take n s\<close>. Code points are integers; \<open>asc\<close> turns an ASCII literal of
  the source into such a list.
\<close>

type_synonym pystr = "int list"

definition asc :: "string \<Rightarrow> pystr" where
  "asc s = map of_char s"

definition slice :: "pystr \<Rightarrow> nat \<Rightarrow> nat \<Rightarrow> pystr" where
  "slice t s e = take (e - s) (drop s t)"

section \<open>Regular expressions as \<open>re.search\<close> runs them\<close>

text \<open>
  The patterns of both programs use literals, the negated sets \<open>[^/]\<close>, \<open>[^/?#]\<close> and
  \<open>[^\s]\<close>, the dot, greedy \<open>?\<close> on a group or a literal, greedy \<open>+\<close> and \<open>*\<close> on a
  single character class, capture groups and \<open>$\<close>. A matcher state is a position in the
  text and the spans captured so far. \<open>ms\<close> returns every state the backtracking matcher
  can reach, in the order in which it tries them: the head of the list is the match
  \<open>re.search\<close> reports.
\<close>

datatype cls = Lit int | NotIn "int list" | Dot | NotSpace

datatype rx = Eps | Atom cls | Plus cls | Star cls | Opt rx | Seq rx rx | Grp nat rx | Eol

type_synonym caps = "nat \<Rightarrow> (nat \<times> nat) option"

definition ascii_lower :: "int \<Rightarrow> int" where
  "ascii_lower c = (if 65 \<le> c \<and> c \<le> 90 then c + 32 else c)"

text \<open>
  With \<open>re.IGNORECASE\<close> a pattern character matches a text character whose lower case
  it is, and two pairs that Python treats as equivalent besides: \<open>i\<close> with U+0131 and
  \<open>s\<close> with U+017F. The code points whose lower case is an ASCII letter are \<open>A\<close> to
  \<open>Z\<close>, U+0130 (\<open>i\<close>) and U+212A (\<open>k\<close>); \<open>unicode_tolower\<close> is exact on those and leaves
  every other code point alone, which is all a pattern of ASCII characters can see.
\<close>

definition unicode_tolower :: "int \<Rightarrow> int" where
  "unicode_tolower c = (if c = 304 then 105 else if c = 8490 then 107 else ascii_lower c)"

definition lit_ignorecase :: "int \<Rightarrow> int \<Rightarrow> bool" where
  "lit_ignorecase p c \<longleftrightarrow>
     unicode_tolower c = unicode_tolower p
     \<or> (unicode_tolower p = 105 \<and> c = 305)
     \<or> (unicode_tolower p = 115 \<and> c = 383)"

text \<open>The characters \<open>\s\<close> matches in a \<open>str\<close> pattern: those of \<open>str.isspace\<close>.\<close>

definition py_isspace :: "int \<Rightarrow> bool" where
  "py_isspace c \<longleftrightarrow>
     (9 \<le> c \<and> c \<le> 13) \<or> (28 \<le> c \<and> c \<le> 32) \<or> c = 133 \<or> c = 160 \<or> c = 5760
     \<or> (8192 \<le> c \<and> c \<le> 8202) \<or> c = 8232 \<or> c = 8233 \<or> c = 8239 \<or> c = 8287
     \<or> c = 12288"

fun cls_ok :: "bool \<Rightarrow> cls \<Rightarrow> int \<Rightarrow> bool" where
  "cls_ok ic (Lit p) c = (if ic then lit_ignorecase p c else c = p)"
| "cls_ok ic (NotIn ps) c = (if ic then \<not> list_ex (\<lambda>p. lit_ignorecase p c) ps else c \<notin> set ps)"
| "cls_ok ic Dot c = (c \<noteq> 10)"
| "cls_ok ic NotSpace c = (\<not> py_isspace c)"

definition run_len :: "bool \<Rightarrow> cls \<Rightarrow> pystr \<Rightarrow> nat \<Rightarrow> nat" where
  "run_len ic k t i = length (takeWhile (cls_ok ic k) (drop i t))"

fun ms :: "bool \<Rightarrow> pystr \<Rightarrow> rx \<Rightarrow> nat \<times> caps \<Rightarrow> (nat \<times> caps) list" where
  "ms ic t Eps (i, g) = [(i, g)]"
| "ms ic t (Atom k) (i, g) =
     (if i < length t \<and> cls_ok ic k (t ! i) then [(Suc i, g)] else [])"
| "ms ic t (Plus k) (i, g) = map (\<lambda>n. (i + n, g)) (rev [1 ..< Suc (run_len ic k t i)])"
| "ms ic t (Star k) (i, g) = map (\<lambda>n. (i + n, g)) (rev [0 ..< Suc (run_len ic k t i)])"
| "ms ic t (Opt r) (i, g) = ms ic t r (i, g) @ [(i, g)]"
| "ms ic t (Seq a b) (i, g) = concat (map (ms ic t b) (ms ic t a (i, g)))"
| "ms ic t (Grp n r) (i, g) = map (\<lambda>(j, g'). (j, g'(n \<mapsto> (i, j)))) (ms ic t r (i, g))"
| "ms ic t Eol (i, g) =
     (if i = length t \<or> (Suc i = length t \<and> t ! i = 10) then [(i, g)] else [])"


text \<open>\<open>re.search\<close>: the leftmost start position at which the pattern matches.\<close>

fun search_from :: "bool \<Rightarrow> rx \<Rightarrow> pystr \<Rightarrow> nat list \<Rightarrow> (nat \<times> nat \<times> caps) option" where
  "search_from ic r t [] = None"
| "search_from ic r t (s # ss) =
     (case ms ic t r (s, Map.empty) of
        [] \<Rightarrow> search_from ic r t ss
      | (e, g) # _ \<Rightarrow> Some (s, e, g))"

definition re_search :: "bool \<Rightarrow> rx \<Rightarrow> pystr \<Rightarrow> (nat \<times> nat \<times> caps) option" where
  "re_search ic r t = search_from ic r t [0 ..< Suc (length t)]"

definition group0 :: "pystr \<Rightarrow> nat \<times> nat \<times> caps \<Rightarrow> pystr" where
  "group0 t m = (case m of (s, e, g) \<Rightarrow> slice t s e)"

definition group :: "pystr \<Rightarrow> nat \<times> nat \<times> caps \<Rightarrow> nat \<Rightarrow> pystr option" where
  "group t m n = (case m of (s, e, g) \<Rightarrow> map_option (\<lambda>(a, b). slice t a b) (g n))"

fun seqs :: "rx list \<Rightarrow> rx" where
  "seqs [] = Eps"
| "seqs [r] = r"
| "seqs (r # rs) = Seq r (seqs rs)"

definition lits :: "string \<Rightarrow> rx" where
  "lits s = seqs (map (\<lambda>c. Atom (Lit (of_char c))) s)"

definition ch :: "char \<Rightarrow> rx" where
  "ch c = Atom (Lit (of_char c))"

section \<open>The link classifiers\<close>

datatype content_type = Profile | Reel | Post | Story | Unknown

text \<open>
  A dictionary of patterns is walked in insertion order: the first pattern that matches
  anywhere in the text decides.
\<close>

fun first_match ::
  "bool \<Rightarrow> (content_type \<times> rx) list \<Rightarrow> pystr \<Rightarrow> (content_type \<times> (nat \<times> nat \<times> caps)) option"
where
  "first_match ic [] t = None"
| "first_match ic ((k, r) # ps) t =
     (case re_search ic r t of Some m \<Rightarrow> Some (k, m) | None \<Rightarrow> first_match ic ps t)"

subsection \<open>\<open>instagram_bot.py\<close>: \<open>extract_instagram_info\<close>\<close>

definition bot_profile :: rx where
  "bot_profile =
     seqs [lits ''instagram.com/'', Grp 1 (Plus (NotIn (asc ''/''))), Opt (ch CHR ''/''), Eol]"

definition bot_reel :: rx where
  "bot_reel = seqs [lits ''instagram.com/reel/'', Grp 1 (Plus (NotIn (asc ''/'')))]"

definition bot_post :: rx where
  "bot_post = seqs [lits ''instagram.com/p/'', Grp 1 (Plus (NotIn (asc ''/'')))]"

definition bot_story :: rx where
  "bot_story =
     seqs [lits ''instagram.com/stories/'', Grp 1 (Plus (NotIn (asc ''/''))), ch CHR ''/'',
           Grp 2 (Plus (NotIn (asc ''/'')))]"

definition bot_patterns :: "(content_type \<times> rx) list" where
  "bot_patterns =
     [(Profile, bot_profile), (Reel, bot_reel), (Post, bot_post), (Story, bot_story)]"

record link_info =
  ltype :: content_type
  lid :: "pystr option"
  lurl :: pystr

definition extract_instagram_info :: "pystr \<Rightarrow> link_info" where
  "extract_instagram_info url =
     (case first_match False bot_patterns url of
        Some (k, m) \<Rightarrow> \<lparr>ltype = k, lid = group url m 1, lurl = url\<rparr>
      | None \<Rightarrow> \<lparr>ltype = Unknown, lid = None, lurl = url\<rparr>)"

subsection \<open>\<open>main.py\<close>: \<open>InstagramTelegramBot.extract_instagram_info\<close>\<close>

text \<open>
  The four patterns share their head \<open>https?://(?:www\.)?instagram\.com/\<close> and, but for
  the anchor of the profile pattern, their tail \<open>/?(?:\?.*)?\<close>. The method returns the
  matched text \<open>match.group(0)\<close> and the kind; it does not return a capture group.
\<close>

definition url_head :: rx where
  "url_head =
     seqs [lits ''http'', Opt (ch CHR ''s''), lits ''://'', Opt (lits ''www.''),
           lits ''instagram.com/'']"

definition url_tail :: rx where
  "url_tail = seqs [Opt (ch CHR ''/''), Opt (Seq (ch CHR ''?'') (Star Dot))]"

definition main_profile :: rx where
  "main_profile = seqs [url_head, Grp 1 (Plus (NotIn (asc ''/?#''))), url_tail, Eol]"

definition main_post :: rx where
  "main_post = seqs [url_head, lits ''p/'', Grp 1 (Plus (NotIn (asc ''/?#''))), url_tail]"

definition main_reel :: rx where
  "main_reel = seqs [url_head, lits ''reel/'', Grp 1 (Plus (NotIn (asc ''/?#''))), url_tail]"

definition main_story :: rx where
  "main_story =
     seqs [url_head, lits ''stories/'', Grp 1 (Plus (NotIn (asc ''/?#''))), ch CHR ''/'',
           Grp 2 (Plus (NotIn (asc ''/?#''))), url_tail]"

definition main_patterns :: "(content_type \<times> rx) list" where
  "main_patterns =
     [(Profile, main_profile), (Post, main_post), (Reel, main_reel), (Story, main_story)]"

definition main_extract_instagram_info :: "pystr \<Rightarrow> (pystr \<times> content_type) option" where
  "main_extract_instagram_info text =
     (case first_match True main_patterns text of
        Some (k, m) \<Rightarrow> Some (group0 text m, k)
      | None \<Rightarrow> None)"


section \<open>The rate limiter of \<open>instagram_bot.py\<close>\<close>

text \<open>
  A \<open>datetime\<close> is the number of microseconds it stands for, so that differences and
  comparisons with a \<open>timedelta\<close> are exact integer arithmetic. The module keeps two
  globals, \<open>user_requests\<close> and \<open>last_cleanup\<close>.
\<close>

type_synonym datetime = int

definition hour :: int where
  "hour = 3600000000"

definition five_minutes :: int where
  "five_minutes = 300000000"

definition MAX_REQUESTS_PER_HOUR :: nat where
  "MAX_REQUESTS_PER_HOUR = 30"

record limiter =
  user_requests :: "int \<rightharpoonup> datetime list"
  last_cleanup :: datetime

text \<open>The list comprehension \<open>[req_time for req_time in ... if req_time > hour_ago]\<close>.\<close>

definition newer_than :: "datetime \<Rightarrow> datetime list \<Rightarrow> datetime list" where
  "newer_than hour_ago reqs = filter (\<lambda>req_time. req_time > hour_ago) reqs"

text \<open>
  \<open>cleanup_old_requests\<close> reads the clock itself: \<open>now_c\<close> is that reading. It prunes
  every user's list and deletes the lists that become empty.
\<close>

definition cleanup_old_requests ::
  "datetime \<Rightarrow> (int \<rightharpoonup> datetime list) \<Rightarrow> (int \<rightharpoonup> datetime list)"
where
  "cleanup_old_requests now_c reqs =
     (\<lambda>user_id. case reqs user_id of
        None \<Rightarrow> None
      | Some ts \<Rightarrow>
          (let ts' = newer_than (now_c - hour) ts in if ts' = [] then None else Some ts'))"

text \<open>
  \<open>is_rate_limited\<close>: \<open>now\<close> is its own reading of the clock, \<open>now_c\<close> the later one of
  the sweep it may call. The result is the returned flag and the new globals.
\<close>

definition is_rate_limited :: "int \<Rightarrow> datetime \<Rightarrow> datetime \<Rightarrow> limiter \<Rightarrow> bool \<times> limiter" where
  "is_rate_limited user_id now now_c s =
     (let s1 = (if now - last_cleanup s > five_minutes
                then \<lparr>user_requests = cleanup_old_requests now_c (user_requests s),
                      last_cleanup = now\<rparr>
                else s);
          reqs = (case user_requests s1 user_id of None \<Rightarrow> [] | Some ts \<Rightarrow> ts);
          kept = newer_than (now - hour) reqs
      in if length kept \<ge> MAX_REQUESTS_PER_HOUR
         then (True, s1\<lparr>user_requests := (user_requests s1)(user_id \<mapsto> kept)\<rparr>)
         else (False, s1\<lparr>user_requests := (user_requests s1)(user_id \<mapsto> kept @ [now])\<rparr>))"

text \<open>The record of a user, empty when the user has none.\<close>

definition requests_of :: "limiter \<Rightarrow> int \<Rightarrow> datetime list" where
  "requests_of s user_id = (case user_requests s user_id of None \<Rightarrow> [] | Some ts \<Rightarrow> ts)"

text \<open>
  A run of calls, each by some user and with its two clock readings, in the order in which
  the event loop serves them; the flags returned and the globals after the last call.
\<close>

fun run_calls :: "(int \<times> datetime \<times> datetime) list \<Rightarrow> limiter \<Rightarrow> bool list \<times> limiter" where
  "run_calls [] s = ([], s)"
| "run_calls ((user_id, now, now_c) # cs) s =
     (let (r, s') = is_rate_limited user_id now now_c s;
          (rs, s'') = run_calls cs s'
      in (r # rs, s''))"

text \<open>The request times of one user's calls in a run, and the flags those calls got.\<close>

definition times_by :: "int \<Rightarrow> (int \<times> datetime \<times> datetime) list \<Rightarrow> datetime list" where
  "times_by u cs = map (\<lambda>c. fst (snd c)) (filter (\<lambda>c. fst c = u) cs)"

definition flags_by :: "int \<Rightarrow> (int \<times> datetime \<times> datetime) list \<Rightarrow> bool list \<Rightarrow> bool list" where
  "flags_by u cs rs = map snd (filter (\<lambda>p. fst (fst p) = u) (zip cs rs))"

text \<open>
  The entries of a user that one call keeps: those newer than \<open>now - 1h\<close>, and, when the call
  also ran the sweep, newer than the sweep's own \<open>hour_ago\<close>.
\<close>

definition kept_at :: "datetime \<Rightarrow> datetime \<Rightarrow> limiter \<Rightarrow> int \<Rightarrow> datetime list" where
  "kept_at now now_c s u =
     newer_than (now - hour)
       (if now - last_cleanup s > five_minutes then newer_than (now_c - hour) (requests_of s u)
        else requests_of s u)"

text \<open>The module's globals at import time: no record, \<open>last_cleanup = datetime.now()\<close>.\<close>

definition init_limiter :: "datetime \<Rightarrow> limiter" where
  "init_limiter t0 = \<lparr>user_requests = Map.empty, last_cleanup = t0\<rparr>"

text \<open>
  The admit operation in the words of the specification, on one user's record: prune the
  entries older than \<open>now - 1h\<close>; with 30 or more left return false and do not record the
  attempt, else append \<open>now\<close> and return true. It is compared with \<open>is_rate_limited\<close>
  below (whose flag is the negation of this one).
\<close>

definition spec_admit :: "datetime \<Rightarrow> datetime list \<Rightarrow> bool \<times> datetime list" where
  "spec_admit now reqs =
     (let pruned = filter (\<lambda>t. \<not> t < now - hour) reqs
      in if 30 \<le> length pruned then (False, pruned) else (True, pruned @ [now]))"

section \<open>Effects, exceptions and collaborators\<close>

text \<open>
  A handler runs on a world and returns how it ended, normally or by raising, with the
  world it leaves. The exceptions are those derived from \<open>Exception\<close>, which is what the
  \<open>except Exception\<close> clauses of both programs catch; \<open>Error m\<close> is any that has no
  constructor of its own, with its message.
\<close>

datatype exn = ValueError | KeyError | TypeError | DownloadError pystr | Error pystr

datatype 'a res = Ok 'a | Raise exn

type_synonym path = pystr

text \<open>
  The world that both programs share: the files that exist, and the calls made so far to
  the collaborators (Telegram, the file system, the fetcher), in order. A call that raises
  is recorded too: it was made.
\<close>

record 'e io =
  files :: "path set"
  calls :: "'e list"

text \<open>
  Whether a call to a collaborator raises is for the environment to decide: \<open>fl k\<close> is
  the exception raised by the call made when \<open>k\<close> calls are on record, if any.
\<close>

type_synonym failures = "nat \<Rightarrow> exn option"

definition call :: "failures \<Rightarrow> 'e \<Rightarrow> ('e, 'a) io_scheme \<Rightarrow> unit res \<times> ('e, 'a) io_scheme" where
  "call fl ev w =
     (case fl (length (calls w)) of None \<Rightarrow> Ok () | Some e \<Rightarrow> Raise e, w\<lparr>calls := calls w @ [ev]\<rparr>)"

text \<open>A step that cannot raise, put on record.\<close>

definition log_call :: "'e \<Rightarrow> ('e, 'a) io_scheme \<Rightarrow> ('e, 'a) io_scheme" where
  "log_call ev w = w\<lparr>calls := calls w @ [ev]\<rparr>"

text \<open>Sequencing, \<open>try ... except Exception as e\<close> and \<open>try ... finally\<close>.\<close>

definition and_then :: "('w \<Rightarrow> 'a res \<times> 'w) \<Rightarrow> ('a \<Rightarrow> 'w \<Rightarrow> 'b res \<times> 'w) \<Rightarrow> 'w \<Rightarrow> 'b res \<times> 'w" where
  "and_then f g w = (case f w of (Ok a, w') \<Rightarrow> g a w' | (Raise e, w') \<Rightarrow> (Raise e, w'))"

definition try_except :: "('w \<Rightarrow> 'a res \<times> 'w) \<Rightarrow> (exn \<Rightarrow> 'w \<Rightarrow> 'a res \<times> 'w) \<Rightarrow> 'w \<Rightarrow> 'a res \<times> 'w" where
  "try_except f h w = (case f w of (Ok a, w') \<Rightarrow> (Ok a, w') | (Raise e, w') \<Rightarrow> h e w')"

definition try_finally :: "('w \<Rightarrow> 'a res \<times> 'w) \<Rightarrow> ('w \<Rightarrow> 'w) \<Rightarrow> 'w \<Rightarrow> 'a res \<times> 'w" where
  "try_finally f g w = (case f w of (r, w') \<Rightarrow> (r, g w'))"

text \<open>The calls a run has added to the record.\<close>

definition new_calls :: "('e, 'a) io_scheme \<Rightarrow> ('e, 'b) io_scheme \<Rightarrow> 'e list" where
  "new_calls w w' = drop (length (calls w)) (calls w')"

section \<open>\<open>main.py\<close>: the session store\<close>

text \<open>
  A session is the dictionary that \<open>create_session\<close> builds; \<open>time.time()\<close> is a real
  number of seconds. The bot object holds the sessions by user id and the timeout.
\<close>

record session =
  s_url :: pystr
  s_url_type :: content_type
  s_timestamp :: real

record InstagramTelegramBot =
  user_sessions :: "int \<rightharpoonup> session"
  session_timeout :: real

definition init_bot :: InstagramTelegramBot where
  "init_bot = \<lparr>user_sessions = Map.empty, session_timeout = 300\<rparr>"

definition is_session_valid :: "real \<Rightarrow> int \<Rightarrow> InstagramTelegramBot \<Rightarrow> bool" where
  "is_session_valid now user_id self =
     (case user_sessions self user_id of
        None \<Rightarrow> False
      | Some session \<Rightarrow> now - s_timestamp session < session_timeout self)"

definition create_session :: "real \<Rightarrow> int \<Rightarrow> pystr \<Rightarrow> content_type \<Rightarrow> InstagramTelegramBot \<Rightarrow> InstagramTelegramBot" where
  "create_session now user_id url url_type self =
     self\<lparr>user_sessions := (user_sessions self)
       (user_id \<mapsto> \<lparr>s_url = url, s_url_type = url_type, s_timestamp = now\<rparr>)\<rparr>"

definition clear_session :: "int \<Rightarrow> InstagramTelegramBot \<Rightarrow> InstagramTelegramBot" where
  "clear_session user_id self = self\<lparr>user_sessions := (user_sessions self)(user_id := None)\<rparr>"

section \<open>\<open>main.py\<close>: captions and the fetcher\<close>

text \<open>
  What \<open>yt-dlp\<close> does in one call of \<open>download_with_ytdlp\<close> is given from outside: the
  result of \<open>extract_info\<close>, whether \<open>download\<close> raises, and the names that the \<open>glob\<close> of
  the downloads directory then yields, in its order. Of the metadata the code only tests
  truth values and compares strings, so a key that is missing or \<open>None\<close> is the empty
  string here.
\<close>

record info =
  i_availability :: pystr
  i_title :: pystr
  i_description :: pystr
  i_uploader :: pystr

record ydl =
  ydl_extract_info :: "exn + info"
  ydl_download :: "exn option"
  ydl_glob :: "pystr list"

definition desc_text :: "pystr \<Rightarrow> pystr" where
  "desc_text description =
     (if length description > 200 then take 200 description @ asc ''...'' else description)"

definition caption_parts :: "info \<Rightarrow> pystr list" where
  "caption_parts i =
     (if i_uploader i \<noteq> [] then [[128100] @ asc '' **'' @ i_uploader i @ asc ''**''] else [])
     @ (if i_title i \<noteq> [] \<and> i_title i \<noteq> i_uploader i then [[128221, 32] @ i_title i] else [])
     @ (if i_description i \<noteq> [] \<and> i_description i \<noteq> i_title i
        then [[128172, 32] @ desc_text (i_description i)] else [])"

text \<open>\<open>sep.join(parts)\<close>.\<close>

fun join :: "pystr \<Rightarrow> pystr list \<Rightarrow> pystr" where
  "join sep [] = []"
| "join sep [p] = p"
| "join sep (p # q # ps) = p @ sep @ join sep (q # ps)"

definition make_caption :: "info \<Rightarrow> pystr option" where
  "make_caption i =
     (if caption_parts i \<noteq> [] then Some (join [10, 10] (caption_parts i)) else None)"

text \<open>
  The status message that comes back with the path; the two \<open>except\<close> clauses build
  theirs from the exception.
\<close>

datatype status =
    Private | Successful | FileNotFound | OfDownloadError pystr | OfException exn

definition on_error :: "exn \<Rightarrow> path option \<times> status \<times> pystr option" where
  "on_error e =
     (case e of
        DownloadError m \<Rightarrow> (None, OfDownloadError m, None)
      | _ \<Rightarrow> (None, OfException e, None))"

definition downloads_path :: "pystr \<Rightarrow> path" where
  "downloads_path name = asc ''downloads/'' @ name"

text \<open>
  \<open>download_with_ytdlp\<close> catches every exception itself. It returns the first path of the
  \<open>glob\<close>; what the \<open>glob\<close> lists are files of the directory, so they exist afterwards.
\<close>

definition download_with_ytdlp ::
  "ydl \<Rightarrow> pystr \<Rightarrow> bool \<Rightarrow> path set \<Rightarrow> (path option \<times> status \<times> pystr option) \<times> path set"
where
  "download_with_ytdlp y url audio_only fs =
     (case ydl_extract_info y of
        Inl e \<Rightarrow> (on_error e, fs)
      | Inr i \<Rightarrow>
          if i_availability i = asc ''private'' then ((None, Private, None), fs)
          else (case ydl_download y of
                  Some e \<Rightarrow> (on_error e, fs)
                | None \<Rightarrow>
                    (case ydl_glob y of
                       [] \<Rightarrow> ((None, FileNotFound, None), fs)
                     | file_path # _ \<Rightarrow>
                         ((Some (downloads_path file_path), Successful, make_caption i),
                          fs \<union> set (map downloads_path (ydl_glob y))))))"

section \<open>\<open>main.py\<close>: the handlers\<close>

text \<open>
  The texts that the handlers send, by the literal of the source that they stand for and
  the values that it interpolates; a caption is the string itself.
\<close>

datatype main_text =
    InvalidUrl
  | Processing content_type
  | UnsupportedContentType
  | SomethingWentWrong exn
  | DownloadingProfilePicture
  | ProfileDownloadFailedStatus status
  | ProfileDownloadFailed exn
  | ChooseFormat content_type int
  | ErrorCreatingOptions exn
  | SessionExpired
  | NotForYou
  | DownloadCancelled
  | Downloading bool
  | DownloadFailedStatus status
  | DownloadFailed exn

datatype main_event =
    ReplyText main_text
  | EditText main_text
  | DeleteProcessingMsg
  | ReplyPhoto path pystr
  | Answer
  | AnswerAlert main_text
  | EditMessageText main_text
  | ReplyAudio path pystr
  | ReplyVideo path pystr
  | DeleteMessage
  | OpenFile path
  | OsRemove path
  | Download pystr bool
  | ClearSession int

record main_world = "main_event io" +
  the_bot :: InstagramTelegramBot

text \<open>\<open>bot.clear_session\<close> on the global instance, put on record.\<close>

definition clear :: "int \<Rightarrow> main_world \<Rightarrow> main_world" where
  "clear user_id w = log_call (ClearSession user_id) (w\<lparr>the_bot := clear_session user_id (the_bot w)\<rparr>)"

text \<open>\<open>safe_delete_file\<close> swallows what \<open>os.remove\<close> raises.\<close>

definition safe_delete_file :: "failures \<Rightarrow> path \<Rightarrow> main_world \<Rightarrow> main_world" where
  "safe_delete_file fl filepath w =
     (if filepath \<noteq> [] \<and> filepath \<in> files w
      then (case call fl (OsRemove filepath) w of
              (Ok _, w') \<Rightarrow> w'\<lparr>files := files w' - {filepath}\<rparr>
            | (Raise e, w') \<Rightarrow> w')
      else w)"

text \<open>The fetcher on the world: the call is put on record and the files appear.\<close>

definition fetch ::
  "ydl \<Rightarrow> pystr \<Rightarrow> bool \<Rightarrow> main_world \<Rightarrow> (path option \<times> status \<times> pystr option) \<times> main_world"
where
  "fetch y url audio_only w =
     (case download_with_ytdlp y url audio_only (files w) of
        (r, fs) \<Rightarrow> (r, (log_call (Download url audio_only) w)\<lparr>files := fs\<rparr>))"

text \<open>The truth value of an optional string: neither \<open>None\<close> nor empty.\<close>

definition truthy :: "pystr option \<Rightarrow> bool" where
  "truthy v = (case v of None \<Rightarrow> False | Some s \<Rightarrow> s \<noteq> [])"

text \<open>\<open>query.data.split('_', 1)\<close>.\<close>

definition split_once :: "pystr \<Rightarrow> pystr list" where
  "split_once s =
     (if 95 \<in> set s then [takeWhile (\<lambda>c. c \<noteq> 95) s, tl (dropWhile (\<lambda>c. c \<noteq> 95) s)] else [s])"

text \<open>
  \<open>int(s)\<close> on a string: white space is stripped, then come an optional sign and decimal
  digits of any script, single underscores allowed between digits, at most 4300 digits
  (the default limit of the interpreter). \<open>None\<close> stands for the \<open>ValueError\<close>.
\<close>

definition int_space :: "int \<Rightarrow> bool" where
  "int_space c \<longleftrightarrow>
     (9 \<le> c \<and> c \<le> 13) \<or> c = 32 \<or> c = 133 \<or> c = 160 \<or> c = 5760
     \<or> (8192 \<le> c \<and> c \<le> 8202) \<or> c = 8232 \<or> c = 8233 \<or> c = 8239 \<or> c = 8287
     \<or> c = 12288"

definition digit_zeros :: "int list" where
  "digit_zeros =
     [48, 1632, 1776, 1984, 2406, 2534, 2662, 2790, 2918, 3046, 3174, 3302, 3430, 3558,
      3664, 3792, 3872, 4160, 4240, 6112, 6160, 6470, 6608, 6784, 6800, 6992, 7088, 7232,
      7248, 42528, 43216, 43264, 43472, 43504, 43600, 44016, 65296, 66720, 68912, 69734,
      69872, 69942, 70096, 70384, 70736, 70864, 71248, 71360, 71472, 71904, 72016, 72784,
      73040, 73120, 92768, 92864, 93008, 120782, 120792, 120802, 120812, 120822, 123200,
      123632, 125264, 130032]"

definition digit_value :: "int \<Rightarrow> int option" where
  "digit_value c =
     (case filter (\<lambda>z. z \<le> c \<and> c \<le> z + 9) digit_zeros of [] \<Rightarrow> None | z # _ \<Rightarrow> Some (c - z))"

fun digits :: "pystr \<Rightarrow> int \<Rightarrow> nat \<Rightarrow> int option" where
  "digits [] acc n = None"
| "digits (c # cs) acc n =
     (case digit_value c of
        None \<Rightarrow> None
      | Some d \<Rightarrow>
          (case cs of
             [] \<Rightarrow> if Suc n \<le> 4300 then Some (acc * 10 + d) else None
           | c' # cs' \<Rightarrow>
               if c' = 95 then digits cs' (acc * 10 + d) (Suc n)
               else digits cs (acc * 10 + d) (Suc n)))"

definition strip :: "pystr \<Rightarrow> pystr" where
  "strip s = rev (dropWhile int_space (rev (dropWhile int_space s)))"

definition py_int :: "pystr \<Rightarrow> int option" where
  "py_int s =
     (case strip s of
        [] \<Rightarrow> None
      | c # cs \<Rightarrow>
          if c = 43 then digits cs 0 0
          else if c = 45 then map_option uminus (digits cs 0 0)
          else digits (c # cs) 0 0)"

text \<open>
  The owner id that lines 361 and 362 read from the callback data, when they do not raise.
\<close>

definition callback_owner :: "pystr \<Rightarrow> int option" where
  "callback_owner data = (case split_once data of [action, owner] \<Rightarrow> py_int owner | _ \<Rightarrow> None)"

text \<open>
  The caption that goes with the file: the headline and, under it, the caption of the
  fetcher when it has one.
\<close>

definition caption_text :: "bool \<Rightarrow> pystr option \<Rightarrow> pystr" where
  "caption_text audio_only caption =
     [if audio_only then 127925 else 127909, 9989] @ asc '' **''
     @ (if audio_only then asc ''Audio'' else asc ''Video'') @ asc '' Downloaded Successfully!**''
     @ (case caption of
          None \<Rightarrow> []
        | Some c \<Rightarrow> if c \<noteq> [] then [10, 10] @ c else [])"

text \<open>
  The \<open>try\<close> block of \<open>handle_button_callback\<close> (lines 401 to 435): the value that
  \<open>filepath\<close> has when the block is left, and how it is left.
\<close>

definition send_file :: "failures \<Rightarrow> bool \<Rightarrow> path \<Rightarrow> pystr option \<Rightarrow> main_world \<Rightarrow> unit res \<times> main_world" where
  "send_file fl audio_only filepath caption =
     and_then (call fl (OpenFile filepath)) (\<lambda>_.
     and_then (call fl (if audio_only
                    then ReplyAudio filepath (take 1024 (caption_text audio_only caption))
                    else ReplyVideo filepath (take 1024 (caption_text audio_only caption)))) (\<lambda>_.
     call fl DeleteMessage))"

definition download_block ::
  "failures \<Rightarrow> ydl \<Rightarrow> pystr \<Rightarrow> bool \<Rightarrow> main_world \<Rightarrow> (path option \<times> unit res) \<times> main_world"
where
  "download_block fl y url audio_only w =
     (case fetch y url audio_only w of
        ((filepath, status_msg, caption), w1) \<Rightarrow>
          (case (if truthy filepath \<and> the filepath \<in> files w1
                 then send_file fl audio_only (the filepath) caption w1
                 else call fl (EditMessageText (DownloadFailedStatus status_msg)) w1) of
             (r, w2) \<Rightarrow> ((filepath, r), w2)))"

text \<open>
  Lines 399 to 451: the \<open>try\<close> block, its \<open>except Exception\<close> clause and the \<open>finally\<close>
  clause, which clears the session and deletes the file.
\<close>

definition download_and_clean_up ::
  "failures \<Rightarrow> ydl \<Rightarrow> int \<Rightarrow> pystr \<Rightarrow> bool \<Rightarrow> main_world \<Rightarrow> unit res \<times> main_world"
where
  "download_and_clean_up fl y user_id url audio_only w =
     (case download_block fl y url audio_only w of
        ((filepath, r), w1) \<Rightarrow>
          (case (case r of
                   Ok u \<Rightarrow> (Ok u, w1)
                 | Raise e \<Rightarrow> call fl (EditMessageText (DownloadFailed e)) w1) of
             (r', w2) \<Rightarrow>
               (r', let w3 = clear user_id w2
                    in if truthy filepath then safe_delete_file fl (the filepath) w3 else w3)))"

definition handle_button_callback ::
  "failures \<Rightarrow> real \<Rightarrow> ydl \<Rightarrow> int \<Rightarrow> pystr \<Rightarrow> main_world \<Rightarrow> unit res \<times> main_world"
where
  "handle_button_callback fl now y user_id data =
     and_then (call fl Answer) (\<lambda>_ w.
       if \<not> is_session_valid now user_id (the_bot w)
       then call fl (EditMessageText SessionExpired) w
       else (case split_once data of
               [action, owner] \<Rightarrow>
                 (case py_int owner of
                    None \<Rightarrow> (Raise ValueError, w)
                  | Some callback_user_id \<Rightarrow>
                      if user_id \<noteq> callback_user_id then call fl (AnswerAlert NotForYou) w
                      else (case user_sessions (the_bot w) user_id of
                              None \<Rightarrow> (Raise KeyError, w)
                            | Some session \<Rightarrow>
                                if action = asc ''cancel''
                                then call fl (EditMessageText DownloadCancelled) (clear user_id w)
                                else and_then (call fl (EditMessageText (Downloading (action = asc ''audio''))))
                                       (\<lambda>_. download_and_clean_up fl y user_id (s_url session)
                                              (action = asc ''audio'')) w))
             | _ \<Rightarrow> (Raise ValueError, w)))"

section \<open>Pattern priority\<close>






















section \<open>Identifiers, query strings and fragments\<close>

text \<open>
  Claim C5 at three URLs. The identifier \<open>instagram_bot.py\<close> extracts from a reel URL
  changes when a query string or a fragment is appended to the URL: the set \<open>[^/]\<close> of
  its patterns takes \<open>?\<close> and \<open>#\<close> with it. In \<open>main.py\<close>, whose capture groups stop at
  \<open>?\<close> and \<open>#\<close>, a profile URL with a fragment is no longer a link at all.
\<close>

theorem identifier_keeps_query_and_fragment:
  "lid (extract_instagram_info (asc ''https://instagram.com/reel/XYZ123'')) = Some (asc ''XYZ123'')
   \<and> lid (extract_instagram_info (asc ''https://instagram.com/reel/XYZ123?igshid=abc''))
       = Some (asc ''XYZ123?igshid=abc'')
   \<and> lid (extract_instagram_info (asc ''https://instagram.com/reel/XYZ123#t''))
       = Some (asc ''XYZ123#t'')
   \<and> lid (extract_instagram_info (asc ''https://instagram.com/alice?hl=en''))
       = Some (asc ''alice?hl=en'')
   \<and> main_extract_instagram_info (asc ''https://instagram.com/alice'')
       = Some (asc ''https://instagram.com/alice'', Profile)
   \<and> main_extract_instagram_info (asc ''https://instagram.com/alice#bio'') = None"
  by code_simp

section \<open>Case-insensitive matching in \<open>main.py\<close>\<close>

text \<open>
  With \<open>re.IGNORECASE\<close> every test the matcher makes on a character gives the same
  answer on the lower-case character, so a search sees a text only through its case
  folding.
\<close>

lemma lit_ignorecase_fold: "lit_ignorecase p (ascii_lower c) = lit_ignorecase p c"
  by (auto simp: lit_ignorecase_def unicode_tolower_def ascii_lower_def)

lemma cls_ok_fold: "cls_ok True k (ascii_lower c) = cls_ok True k c"
proof (cases k)
  case (Lit p)
  then show ?thesis by (simp add: lit_ignorecase_fold)
next
  case (NotIn ps)
  then show ?thesis by (simp add: lit_ignorecase_fold list_ex_iff)
next
  case Dot
  then show ?thesis by (auto simp: ascii_lower_def)
next
  case NotSpace
  then show ?thesis by (auto simp: py_isspace_def ascii_lower_def)
qed

lemma run_len_fold:
  assumes "map ascii_lower t = map ascii_lower t'"
  shows "run_len True k t i = run_len True k t' i"
proof -
  have P: "cls_ok True k \<circ> ascii_lower = cls_ok True k"
    by (rule ext) (simp add: cls_ok_fold)
  have L: "length (takeWhile (cls_ok True k) (drop i u))
      = length (takeWhile (cls_ok True k) (drop i (map ascii_lower u)))" for u
    by (simp add: takeWhile_map P drop_map)
  show ?thesis
    unfolding run_len_def L [of t] L [of t'] assms ..
qed

lemma nth_fold:
  assumes "map ascii_lower t = map ascii_lower t'" "i < length t"
  shows "ascii_lower (t ! i) = ascii_lower (t' ! i)"
proof -
  have "length t = length t'" using assms(1) by (rule map_eq_imp_length_eq)
  then show ?thesis using assms by (metis nth_map)
qed

lemma ascii_lower_newline: "ascii_lower c = 10 \<longleftrightarrow> c = 10"
  by (auto simp: ascii_lower_def)

lemma ms_fold:
  assumes "map ascii_lower t = map ascii_lower t'"
  shows "ms True t r st = ms True t' r st"
proof (induction r arbitrary: st)
  case (Atom k)
  obtain i g where st: "st = (i, g)" by (cases st)
  have len: "length t = length t'" using assms by (rule map_eq_imp_length_eq)
  show ?case
  proof (cases "i < length t")
    case True
    have "cls_ok True k (t ! i) = cls_ok True k (t' ! i)"
      using nth_fold [OF assms True] by (metis cls_ok_fold)
    then show ?thesis using st len by simp
  next
    case False
    then show ?thesis using st len by simp
  qed
next
  case Eol
  obtain i g where st: "st = (i, g)" by (cases st)
  have len: "length t = length t'" using assms by (rule map_eq_imp_length_eq)
  have "t ! i = 10 \<longleftrightarrow> t' ! i = 10" if "Suc i = length t"
    using nth_fold [OF assms, of i] that by (metis ascii_lower_newline lessI)
  then show ?case using st len by auto
next
  case (Seq a b)
  obtain i g where st: "st = (i, g)" by (cases st)
  have "ms True t b = ms True t' b"
    by (rule ext) (rule Seq.IH(2))
  then show ?case by (simp add: st Seq.IH(1))
next
  case Eps
  show ?case by (cases st) simp
next
  case (Plus k)
  show ?case by (cases st) (simp add: run_len_fold [OF assms])
next
  case (Star k)
  show ?case by (cases st) (simp add: run_len_fold [OF assms])
next
  case (Opt r)
  then show ?case by (cases st) simp
next
  case (Grp n r)
  then show ?case by (cases st) simp
qed

lemma search_from_fold:
  assumes "map ascii_lower t = map ascii_lower t'"
  shows "search_from True r t ss = search_from True r t' ss"
  by (induction ss) (simp_all add: ms_fold [OF assms] split: list.split)

lemma re_search_fold:
  assumes "map ascii_lower t = map ascii_lower t'"
  shows "re_search True r t = re_search True r t'"
proof -
  have "length t = length t'" using assms by (rule map_eq_imp_length_eq)
  then show ?thesis by (simp add: re_search_def search_from_fold [OF assms])
qed

lemma first_match_fold:
  assumes "map ascii_lower t = map ascii_lower t'"
  shows "first_match True ps t = first_match True ps t'"
  by (induction ps) (auto simp: re_search_fold [OF assms] split: option.split)

lemma slice_fold:
  assumes "map ascii_lower t = map ascii_lower t'"
  shows "map ascii_lower (slice t s e) = map ascii_lower (slice t' s e)"
  using assms by (simp add: slice_def take_map [symmetric] drop_map [symmetric])

text \<open>
  Claim C9. Two texts that differ only in the case of ASCII letters, wherever the
  letters stand (scheme, host, path markers or elsewhere), get the same kind from the
  classifier of \<open>main.py\<close>, and the URLs it returns differ in case only.
\<close>

theorem main_classifier_ignores_case:
  assumes "map ascii_lower t = map ascii_lower t'"
  shows "map_option snd (main_extract_instagram_info t)
           = map_option snd (main_extract_instagram_info t')
       \<and> map_option (map ascii_lower \<circ> fst) (main_extract_instagram_info t)
           = map_option (map ascii_lower \<circ> fst) (main_extract_instagram_info t')"
  using slice_fold [OF assms]
  by (auto simp: main_extract_instagram_info_def first_match_fold [OF assms] group0_def
           split: option.splits)

theorem main_classifier_ignores_case_witness:
  "map ascii_lower (asc ''see HTTPS://WWW.Instagram.COM/Reel/XyZ/'')
     = map ascii_lower (asc ''see https://www.instagram.com/reel/xyz/'')
   \<and> map_option snd (main_extract_instagram_info (asc ''see HTTPS://WWW.Instagram.COM/Reel/XyZ/''))
       = Some Reel
   \<and> map_option snd (main_extract_instagram_info (asc ''see https://www.instagram.com/reel/xyz/''))
       = Some Reel"
proof -
  have h: "map ascii_lower (asc ''see HTTPS://WWW.Instagram.COM/Reel/XyZ/'')
     = map ascii_lower (asc ''see https://www.instagram.com/reel/xyz/'')"
    by code_simp
  have a: "map_option snd (main_extract_instagram_info (asc ''see HTTPS://WWW.Instagram.COM/Reel/XyZ/''))
       = Some Reel"
    by code_simp
  from main_classifier_ignores_case [OF h] a h show ?thesis
    by simp
qed

section \<open>The rate limiter: pruning, denial and release\<close>

lemma requests_of_cleanup:
  "(case cleanup_old_requests c rq u of None \<Rightarrow> [] | Some ts \<Rightarrow> ts)
     = newer_than (c - hour) (case rq u of None \<Rightarrow> [] | Some ts \<Rightarrow> ts)"
  by (simp add: cleanup_old_requests_def newer_than_def Let_def split: option.splits)

lemma is_rate_limited_eq:
  "is_rate_limited u now now_c s =
     (let s1 = (if now - last_cleanup s > five_minutes
                then \<lparr>user_requests = cleanup_old_requests now_c (user_requests s),
                      last_cleanup = now\<rparr>
                else s);
          kept = kept_at now now_c s u
      in if 30 \<le> length kept
         then (True, s1\<lparr>user_requests := (user_requests s1)(u \<mapsto> kept)\<rparr>)
         else (False, s1\<lparr>user_requests := (user_requests s1)(u \<mapsto> kept @ [now])\<rparr>))"
proof (cases "now - last_cleanup s > five_minutes")
  case True
  then show ?thesis
    unfolding is_rate_limited_def kept_at_def requests_of_def MAX_REQUESTS_PER_HOUR_def
    by (simp add: requests_of_cleanup Let_def)
next
  case False
  then show ?thesis
    unfolding is_rate_limited_def kept_at_def requests_of_def MAX_REQUESTS_PER_HOUR_def
    by (simp add: Let_def)
qed

lemma is_rate_limited_flag:
  "fst (is_rate_limited u now now_c s) \<longleftrightarrow> 30 \<le> length (kept_at now now_c s u)"
  by (simp add: is_rate_limited_eq Let_def)

lemma is_rate_limited_record:
  "requests_of (snd (is_rate_limited u now now_c s)) u =
     (if 30 \<le> length (kept_at now now_c s u) then kept_at now now_c s u
      else kept_at now now_c s u @ [now])"
  by (simp add: is_rate_limited_eq Let_def requests_of_def)

lemma kept_at_all:
  assumes "\<forall>t \<in> set (requests_of s u). now - hour < t \<and> now_c - hour < t"
  shows "kept_at now now_c s u = requests_of s u"
  using assms by (simp add: kept_at_def newer_than_def)

lemma newer_than_drops_oldest:
  assumes "x \<in> set xs" "x \<le> h"
  shows "length (newer_than h xs) < length xs"
  unfolding newer_than_def using assms by (intro length_filter_less [of x]) auto

lemma length_newer_than_le: "length (newer_than h xs) \<le> length xs"
  by (simp add: newer_than_def)

lemma kept_at_after_hour:
  assumes "x \<in> set (requests_of s u)" "x + hour \<le> now"
  shows "length (kept_at now now_c s u) < length (requests_of s u)"
proof -
  have x: "x \<le> now - hour" using assms(2) by simp
  show ?thesis
  proof (cases "now - last_cleanup s > five_minutes")
    case False
    then show ?thesis using newer_than_drops_oldest [OF assms(1) x] by (simp add: kept_at_def)
  next
    case True
    let ?ys = "newer_than (now_c - hour) (requests_of s u)"
    have "length (newer_than (now - hour) ?ys) < length (requests_of s u)"
    proof (cases "x \<in> set ?ys")
      case True
      then have "length (newer_than (now - hour) ?ys) < length ?ys"
        using x by (rule newer_than_drops_oldest)
      then show ?thesis using length_newer_than_le [of "now_c - hour" "requests_of s u"] by simp
    next
      case False
      then have "x \<le> now_c - hour" using assms(1) by (auto simp: newer_than_def)
      then have "length ?ys < length (requests_of s u)"
        using assms(1) by (intro newer_than_drops_oldest)
      then show ?thesis using length_newer_than_le [of "now - hour" ?ys] by simp
    qed
    then show ?thesis using True by (simp add: kept_at_def)
  qed
qed


lemma kept_at_filter:
  "kept_at now now_c s u =
     filter (\<lambda>t. now - hour < t \<and> (five_minutes < now - last_cleanup s \<longrightarrow> now_c - hour < t))
       (requests_of s u)"
  by (auto simp: kept_at_def newer_than_def intro: filter_cong)

lemma is_rate_limited_bound:
  assumes "length (requests_of s u) \<le> 30"
  shows "length (requests_of (snd (is_rate_limited u now now_c s)) u) \<le> 30"
proof -
  have "length (kept_at now now_c s u) \<le> length (requests_of s u)"
    by (simp add: kept_at_filter)
  then show ?thesis using assms by (simp add: is_rate_limited_record)
qed

lemma is_rate_limited_other:
  assumes "v \<noteq> u"
  shows "requests_of (snd (is_rate_limited v now now_c s)) u =
     (if five_minutes < now - last_cleanup s then newer_than (now_c - hour) (requests_of s u)
      else requests_of s u)"
  using assms by (simp add: is_rate_limited_eq Let_def requests_of_def requests_of_cleanup)

lemma is_rate_limited_last_cleanup:
  "last_cleanup (snd (is_rate_limited v now now_c s)) =
     (if five_minutes < now - last_cleanup s then now else last_cleanup s)"
  by (simp add: is_rate_limited_eq Let_def)

lemma newer_than_all:
  assumes "\<forall>t \<in> set xs. h < t"
  shows "newer_than h xs = xs"
  using assms by (simp add: newer_than_def)

lemma run_calls_Cons:
  "run_calls ((v, n, c) # cs) s =
     (fst (is_rate_limited v n c s) # fst (run_calls cs (snd (is_rate_limited v n c s))),
      snd (run_calls cs (snd (is_rate_limited v n c s))))"
  by (simp add: split_beta)

lemma run_calls_window:
  assumes "\<forall>c \<in> set cs. fst (snd c) \<le> T \<and> snd (snd c) \<le> T \<and> (fst c = u \<longrightarrow> T - hour < fst (snd c))"
    and "\<forall>t \<in> set (requests_of s u). T - hour < t"
  shows "requests_of (snd (run_calls cs s)) u =
           requests_of s u @ take (30 - length (requests_of s u)) (times_by u cs)
       \<and> flags_by u cs (fst (run_calls cs s)) =
           replicate (min (length (times_by u cs)) (30 - length (requests_of s u))) False
           @ replicate (length (times_by u cs) - (30 - length (requests_of s u))) True"
  using assms
proof (induction cs arbitrary: s)
  case Nil
  then show ?case by (simp add: times_by_def flags_by_def)
next
  case (Cons a cs)
  obtain v n c where a: "a = (v, n, c)" by (cases a)
  let ?s' = "snd (is_rate_limited v n c s)"
  let ?r = "fst (is_rate_limited v n c s)"
  have nT: "n \<le> T" "c \<le> T" using Cons.prems(1) a by auto
  have rest: "\<forall>c \<in> set cs. fst (snd c) \<le> T \<and> snd (snd c) \<le> T \<and> (fst c = u \<longrightarrow> T - hour < fst (snd c))"
    using Cons.prems(1) by simp
  have old: "\<forall>t \<in> set (requests_of s u). n - hour < t \<and> c - hour < t"
  proof
    fix t assume "t \<in> set (requests_of s u)"
    then have "T - hour < t" using Cons.prems(2) by blast
    then show "n - hour < t \<and> c - hour < t" using nT by linarith
  qed
  have unf: "snd (run_calls (a # cs) s) = snd (run_calls cs ?s')"
    "fst (run_calls (a # cs) s) = ?r # fst (run_calls cs ?s')"
    by (simp_all add: a split_beta)
  show ?case
  proof (cases "v = u")
    case False
    have "newer_than (c - hour) (requests_of s u) = requests_of s u"
      using old by (intro newer_than_all) simp
    then have rec: "requests_of ?s' u = requests_of s u"
      using False by (simp add: is_rate_limited_other)
    have t: "times_by u (a # cs) = times_by u cs"
      using False by (simp add: times_by_def a)
    have f: "flags_by u (a # cs) (r # rs) = flags_by u cs rs" for r rs
      using False by (simp add: flags_by_def a)
    have "\<forall>t \<in> set (requests_of ?s' u). T - hour < t" using Cons.prems(2) by (simp add: rec)
    from Cons.IH [OF rest this] show ?thesis
      by (simp only: unf t f rec)
  next
    case True
    have nw: "T - hour < n" using Cons.prems(1) a True by simp
    have k: "kept_at n c s u = requests_of s u" using old by (rule kept_at_all)
    have t: "times_by u (a # cs) = n # times_by u cs"
      using True by (simp add: times_by_def a)
    have f: "flags_by u (a # cs) (r # rs) = r # flags_by u cs rs" for r rs
      using True by (simp add: flags_by_def a)
    show ?thesis
    proof (cases "length (requests_of s u) < 30")
      case lt: True
      have flag: "?r = False" using lt by (simp add: is_rate_limited_flag True k)
      have rec: "requests_of ?s' u = requests_of s u @ [n]"
        using lt by (simp add: is_rate_limited_record True k)
      have "\<forall>t \<in> set (requests_of ?s' u). T - hour < t"
        using Cons.prems(2) nw by (auto simp: rec)
      from Cons.IH [OF rest this]
      have IH: "requests_of (snd (run_calls cs ?s')) u =
           (requests_of s u @ [n]) @ take (29 - length (requests_of s u)) (times_by u cs)"
        "flags_by u cs (fst (run_calls cs ?s')) =
           replicate (min (length (times_by u cs)) (29 - length (requests_of s u))) False
           @ replicate (length (times_by u cs) - (29 - length (requests_of s u))) True"
        by (simp_all add: rec)
      define m where "m = 29 - length (requests_of s u)"
      have m: "30 - length (requests_of s u) = Suc m" "29 - length (requests_of s u) = m"
        using lt by (simp_all add: m_def)
      show ?thesis
        unfolding unf t f IH flag m by simp
    next
      case ge: False
      have flag: "?r = True" using ge by (simp add: is_rate_limited_flag True k)
      have rec: "requests_of ?s' u = requests_of s u"
        using ge by (simp add: is_rate_limited_record True k)
      have z: "30 - length (requests_of s u) = 0" using ge by simp
      have "\<forall>t \<in> set (requests_of ?s' u). T - hour < t" using Cons.prems(2) by (simp add: rec)
      from Cons.IH [OF rest this]
      have IH: "requests_of (snd (run_calls cs ?s')) u = requests_of s u"
        "flags_by u cs (fst (run_calls cs ?s')) = replicate (length (times_by u cs)) True"
        by (simp_all add: rec z)
      show ?thesis
        unfolding unf t f IH flag z by simp
    qed
  qed
qed

lemma spec_admit_refined:
  assumes "\<forall>t \<in> set (requests_of s u).
     t < now - hour \<or> (now - hour < t \<and> (five_minutes < now - last_cleanup s \<longrightarrow> now_c - hour < t))"
  shows "spec_admit now (requests_of s u) =
     (\<not> fst (is_rate_limited u now now_c s), requests_of (snd (is_rate_limited u now now_c s)) u)"
proof -
  have "filter (\<lambda>t. \<not> t < now - hour) (requests_of s u) = kept_at now now_c s u"
    unfolding kept_at_filter using assms by (intro filter_cong) auto
  then show ?thesis
    by (simp add: spec_admit_def is_rate_limited_flag is_rate_limited_record Let_def)
qed

lemma release_after_hour:
  assumes "length (requests_of s u) \<le> 30" and "x \<in> set (requests_of s u)" and "x + hour \<le> now"
  shows "\<not> fst (is_rate_limited u now now_c s)"
  using kept_at_after_hour [OF assms(2,3), of now_c] assms(1)
  by (simp add: is_rate_limited_flag)

lemma is_rate_limited_bound_any:
  assumes "length (requests_of s u) \<le> 30"
  shows "length (requests_of (snd (is_rate_limited v now now_c s)) u) \<le> 30"
proof (cases "v = u")
  case True
  then show ?thesis using assms by (simp add: is_rate_limited_bound)
next
  case False
  have "length (newer_than (now_c - hour) (requests_of s u)) \<le> length (requests_of s u)"
    by (rule length_newer_than_le)
  then show ?thesis using False assms by (simp add: is_rate_limited_other)
qed

text \<open>
  Claim C2, as the code has it. One call of \<open>is_rate_limited\<close> for a user, at clock
  reading \<open>now\<close>, first prunes the user's record: it keeps the entries newer than
  \<open>now - 1h\<close>, so an entry exactly one hour old goes too, and when more than five minutes
  have passed since the last sweep it also drops the entries not newer than the sweep's own,
  later reading \<open>now_c - 1h\<close>. The call is denied exactly when at least
  \<open>MAX_REQUESTS_PER_HOUR = 30\<close> entries remain, and then the record is the pruned one: the
  attempt is not recorded. Otherwise \<open>now\<close> is appended and the call is admitted. A call of
  another user touches the record only through that sweep, and a record of at most 30
  entries keeps at most 30. Wherever no entry is exactly one hour old and the sweep drops
  none that \<open>now - 1h\<close> keeps, the call is the admit operation of the specification.
  Hence, in any run of calls by any users whose clock readings all lie at or before an
  instant \<open>T\<close>, a user whose entries and request times are all later than \<open>T - 1h\<close> gets
  the calls admitted until the record holds 30 entries and every further call denied, the
  record being the entries at the start followed by the admitted request times. And a user
  with at most 30 entries, one of them at least one hour old, is admitted.
\<close>

theorem rate_limiter_sliding_window:
  "kept_at now now_c s u =
     filter (\<lambda>t. now - hour < t \<and> (five_minutes < now - last_cleanup s \<longrightarrow> now_c - hour < t))
       (requests_of s u)
   \<and> (fst (is_rate_limited u now now_c s) \<longleftrightarrow>
        MAX_REQUESTS_PER_HOUR \<le> length (kept_at now now_c s u))
   \<and> requests_of (snd (is_rate_limited u now now_c s)) u =
        (if fst (is_rate_limited u now now_c s) then kept_at now now_c s u
         else kept_at now now_c s u @ [now])
   \<and> (v \<noteq> u \<longrightarrow>
        requests_of (snd (is_rate_limited v now now_c s)) u =
          (if five_minutes < now - last_cleanup s
           then newer_than (now_c - hour) (requests_of s u) else requests_of s u))
   \<and> last_cleanup (snd (is_rate_limited v now now_c s)) =
        (if five_minutes < now - last_cleanup s then now else last_cleanup s)
   \<and> (length (requests_of s u) \<le> MAX_REQUESTS_PER_HOUR \<longrightarrow>
        length (requests_of (snd (is_rate_limited v now now_c s)) u) \<le> MAX_REQUESTS_PER_HOUR)
   \<and> ((\<forall>t \<in> set (requests_of s u).
          t < now - hour
          \<or> (now - hour < t \<and> (five_minutes < now - last_cleanup s \<longrightarrow> now_c - hour < t))) \<longrightarrow>
        spec_admit now (requests_of s u) =
          (\<not> fst (is_rate_limited u now now_c s),
           requests_of (snd (is_rate_limited u now now_c s)) u))
   \<and> ((\<forall>(w, n, c) \<in> set cs. n \<le> T \<and> c \<le> T \<and> (w = u \<longrightarrow> T - hour < n))
        \<and> (\<forall>t \<in> set (requests_of s u). T - hour < t) \<longrightarrow>
        requests_of (snd (run_calls cs s)) u =
          requests_of s u
          @ take (MAX_REQUESTS_PER_HOUR - length (requests_of s u)) (times_by u cs)
        \<and> flags_by u cs (fst (run_calls cs s)) =
          replicate (min (length (times_by u cs))
                       (MAX_REQUESTS_PER_HOUR - length (requests_of s u))) False
          @ replicate (length (times_by u cs)
                       - (MAX_REQUESTS_PER_HOUR - length (requests_of s u))) True)
   \<and> (length (requests_of s u) \<le> MAX_REQUESTS_PER_HOUR
        \<and> (\<exists>x \<in> set (requests_of s u). x + hour \<le> now) \<longrightarrow>
        \<not> fst (is_rate_limited u now now_c s))"
proof (intro conjI impI)
  show "kept_at now now_c s u =
     filter (\<lambda>t. now - hour < t \<and> (five_minutes < now - last_cleanup s \<longrightarrow> now_c - hour < t))
       (requests_of s u)"
    by (rule kept_at_filter)
  show "fst (is_rate_limited u now now_c s) \<longleftrightarrow>
        MAX_REQUESTS_PER_HOUR \<le> length (kept_at now now_c s u)"
    by (simp add: is_rate_limited_flag MAX_REQUESTS_PER_HOUR_def)
  show "requests_of (snd (is_rate_limited u now now_c s)) u =
        (if fst (is_rate_limited u now now_c s) then kept_at now now_c s u
         else kept_at now now_c s u @ [now])"
    by (simp add: is_rate_limited_record is_rate_limited_flag)
  show "last_cleanup (snd (is_rate_limited v now now_c s)) =
        (if five_minutes < now - last_cleanup s then now else last_cleanup s)"
    by (rule is_rate_limited_last_cleanup)
next
  assume "v \<noteq> u"
  then show "requests_of (snd (is_rate_limited v now now_c s)) u =
          (if five_minutes < now - last_cleanup s
           then newer_than (now_c - hour) (requests_of s u) else requests_of s u)"
    by (rule is_rate_limited_other)
next
  assume "length (requests_of s u) \<le> MAX_REQUESTS_PER_HOUR"
  then show "length (requests_of (snd (is_rate_limited v now now_c s)) u) \<le> MAX_REQUESTS_PER_HOUR"
    using is_rate_limited_bound_any [of s u v now now_c] by (simp add: MAX_REQUESTS_PER_HOUR_def)
next
  assume "\<forall>t \<in> set (requests_of s u).
          t < now - hour
          \<or> (now - hour < t \<and> (five_minutes < now - last_cleanup s \<longrightarrow> now_c - hour < t))"
  then show "spec_admit now (requests_of s u) =
          (\<not> fst (is_rate_limited u now now_c s),
           requests_of (snd (is_rate_limited u now now_c s)) u)"
    by (rule spec_admit_refined)
next
  assume h: "(\<forall>(w, n, c) \<in> set cs. n \<le> T \<and> c \<le> T \<and> (w = u \<longrightarrow> T - hour < n))
        \<and> (\<forall>t \<in> set (requests_of s u). T - hour < t)"
  then have h1: "\<forall>c \<in> set cs. fst (snd c) \<le> T \<and> snd (snd c) \<le> T \<and> (fst c = u \<longrightarrow> T - hour < fst (snd c))"
    by (auto simp: split_beta)
  have h2: "\<forall>t \<in> set (requests_of s u). T - hour < t" using h by simp
  note W = run_calls_window [OF h1 h2]
  show "requests_of (snd (run_calls cs s)) u =
          requests_of s u
          @ take (MAX_REQUESTS_PER_HOUR - length (requests_of s u)) (times_by u cs)"
    using W by (simp add: MAX_REQUESTS_PER_HOUR_def)
  show "flags_by u cs (fst (run_calls cs s)) =
          replicate (min (length (times_by u cs))
                       (MAX_REQUESTS_PER_HOUR - length (requests_of s u))) False
          @ replicate (length (times_by u cs)
                       - (MAX_REQUESTS_PER_HOUR - length (requests_of s u))) True"
    using W by (simp add: MAX_REQUESTS_PER_HOUR_def)
next
  assume h: "length (requests_of s u) \<le> MAX_REQUESTS_PER_HOUR
        \<and> (\<exists>x \<in> set (requests_of s u). x + hour \<le> now)"
  then obtain x where x: "x \<in> set (requests_of s u)" "x + hour \<le> now" by blast
  have "length (requests_of s u) \<le> 30" using h by (simp add: MAX_REQUESTS_PER_HOUR_def)
  then show "\<not> fst (is_rate_limited u now now_c s)" using x by (rule release_after_hour)
qed

text \<open>
  User 7 calls at the instants 1, 2, ..., 30 (microseconds) from the initial state, user 8
  calls at 31 and user 7 again at 32: the thirty calls are admitted and the last is denied,
  leaving the thirty entries. From there a call of user 7 at instant 100 is the admit
  operation of the specification, a call one hour after instant 1 is admitted, and a call
  of user 8 ten microseconds after that hour sweeps the first ten entries of user 7 away.
\<close>

theorem rate_limiter_sliding_window_witness:
  "flags_by 7 (map (\<lambda>i. (7, i, i)) [1..30] @ [(8, 31, 31), (7, 32, 33)])
      (fst (run_calls (map (\<lambda>i. (7, i, i)) [1..30] @ [(8, 31, 31), (7, 32, 33)]) (init_limiter 0)))
     = replicate 30 False @ [True]
   \<and> requests_of
       (snd (run_calls (map (\<lambda>i. (7, i, i)) [1..30] @ [(8, 31, 31), (7, 32, 33)]) (init_limiter 0))) 7
     = [1..30]
   \<and> spec_admit 100 [1..30] = (False, [1..30])
   \<and> fst (is_rate_limited 7 100 100
       (snd (run_calls (map (\<lambda>i. (7, i, i)) [1..30] @ [(8, 31, 31), (7, 32, 33)]) (init_limiter 0))))
   \<and> \<not> fst (is_rate_limited 7 (1 + hour) (1 + hour)
       (snd (run_calls (map (\<lambda>i. (7, i, i)) [1..30] @ [(8, 31, 31), (7, 32, 33)]) (init_limiter 0))))
   \<and> requests_of (snd (is_rate_limited 8 (10 + hour) (10 + hour)
       (snd (run_calls (map (\<lambda>i. (7, i, i)) [1..30] @ [(8, 31, 31), (7, 32, 33)]) (init_limiter 0))))) 7
     = [11..30]
   \<and> length (requests_of (snd (is_rate_limited 8 (10 + hour) (10 + hour)
       (snd (run_calls (map (\<lambda>i. (7, i, i)) [1..30] @ [(8, 31, 31), (7, 32, 33)]) (init_limiter 0))))) 7)
     \<le> 30"
proof -
  let ?cs = "map (\<lambda>i. (7, i, i)) [1..30] @ [(8, 31, 31), (7, 32, 33)] :: (int \<times> int \<times> int) list"
  let ?s = "snd (run_calls ?cs (init_limiter 0))"
  have e: "requests_of (init_limiter 0) 7 = []"
    by (simp add: requests_of_def init_limiter_def)
  have w: "\<forall>(w, n, c) \<in> set ?cs. n \<le> 33 \<and> c \<le> 33 \<and> (w = 7 \<longrightarrow> 33 - hour < n)"
    by (auto simp: hour_def)
  have t: "times_by 7 ?cs = [1..30] @ [32]" by code_simp
  have lc: "last_cleanup ?s = 0" by code_simp
  have run: "requests_of ?s 7 = [1..30]
      \<and> flags_by 7 ?cs (fst (run_calls ?cs (init_limiter 0))) = replicate 30 False @ [True]"
    using rate_limiter_sliding_window [of _ _ "init_limiter 0" 7 _ ?cs 33] e w
    by (simp add: t MAX_REQUESTS_PER_HOUR_def)
  then have r: "requests_of ?s 7 = [1..30]" by simp
  have n: "length (requests_of ?s 7) \<le> MAX_REQUESTS_PER_HOUR"
    unfolding r by (simp add: MAX_REQUESTS_PER_HOUR_def)
  note A = rate_limiter_sliding_window [of 100 100 ?s 7 8 "[]" 0]
  have a1: "\<forall>t \<in> set (requests_of ?s 7).
      t < 100 - hour \<or> (100 - hour < t \<and> (five_minutes < 100 - last_cleanup ?s \<longrightarrow> 100 - hour < t))"
    unfolding r by (auto simp: hour_def)
  have sp: "spec_admit 100 [1..30] = (False, [1..30])" by code_simp
  have "spec_admit 100 (requests_of ?s 7) =
      (\<not> fst (is_rate_limited 7 100 100 ?s), requests_of (snd (is_rate_limited 7 100 100 ?s)) 7)"
    using A a1 by blast
  then have den: "fst (is_rate_limited 7 100 100 ?s)"
    using sp by (simp add: r)
  note B = rate_limiter_sliding_window [of "1 + hour" "1 + hour" ?s 7 8 "[]" 0]
  have x: "\<exists>x \<in> set (requests_of ?s 7). x + hour \<le> 1 + hour"
    unfolding r by (rule bexI [of _ 1]) simp_all
  have rel: "\<not> fst (is_rate_limited 7 (1 + hour) (1 + hour) ?s)"
    using B x n by blast
  note C = rate_limiter_sliding_window [of "10 + hour" "10 + hour" ?s 7 8 "[]" 0]
  have nt: "newer_than (10 + hour - hour) [1..30] = [11..30]" by code_simp
  have sw: "five_minutes < 10 + hour - last_cleanup ?s"
    unfolding lc by (simp add: five_minutes_def hour_def)
  have ne: "(8::int) \<noteq> 7" by simp
  have "requests_of (snd (is_rate_limited 8 (10 + hour) (10 + hour) ?s)) 7 =
      (if five_minutes < 10 + hour - last_cleanup ?s
       then newer_than (10 + hour - hour) (requests_of ?s 7) else requests_of ?s 7)"
    using C ne by blast
  then have fr: "requests_of (snd (is_rate_limited 8 (10 + hour) (10 + hour) ?s)) 7 = [11..30]"
    using sw by (simp only: r nt if_True)
  have "length (requests_of (snd (is_rate_limited 8 (10 + hour) (10 + hour) ?s)) 7)
      \<le> MAX_REQUESTS_PER_HOUR"
    using C n by blast
  then have bd: "length (requests_of (snd (is_rate_limited 8 (10 + hour) (10 + hour) ?s)) 7) \<le> 30"
    by (simp add: MAX_REQUESTS_PER_HOUR_def)
  show ?thesis using run sp den rel fr bd by simp
qed

text \<open>
  The claim as written prunes only the entries older than one hour and knows one clock
  reading. After thirty admitted calls of user 7 at the instants 1, ..., 30, a call exactly
  one hour after the first is admitted by the code, where the admit operation of the claim
  still counts thirty entries and denies. And a call at the instant \<open>1h\<close>, when all thirty
  request times lie within the last hour and the admit operation of the claim keeps them
  all, is admitted as well when the sweep that it triggers reads the clock two microseconds
  later: the sweep drops the entries 1 and 2.
\<close>

theorem rate_limiter_sliding_window_counterexample:
  "requests_of (snd (run_calls (map (\<lambda>i. (7, i, i)) [1..30]) (init_limiter 0))) 7 = [1..30]
   \<and> fst (run_calls (map (\<lambda>i. (7, i, i)) [1..30]) (init_limiter 0)) = replicate 30 False
   \<and> spec_admit (1 + hour) [1..30] = (False, [1..30])
   \<and> \<not> fst (is_rate_limited 7 (1 + hour) (1 + hour)
        (snd (run_calls (map (\<lambda>i. (7, i, i)) [1..30]) (init_limiter 0))))
   \<and> requests_of (snd (is_rate_limited 7 (1 + hour) (1 + hour)
        (snd (run_calls (map (\<lambda>i. (7, i, i)) [1..30]) (init_limiter 0))))) 7
      = [2..30] @ [1 + hour]
   \<and> spec_admit hour [1..30] = (False, [1..30])
   \<and> \<not> fst (is_rate_limited 7 hour (hour + 2)
        (snd (run_calls (map (\<lambda>i. (7, i, i)) [1..30]) (init_limiter 0))))
   \<and> requests_of (snd (is_rate_limited 7 hour (hour + 2)
        (snd (run_calls (map (\<lambda>i. (7, i, i)) [1..30]) (init_limiter 0))))) 7
      = [3..30] @ [hour]"
  by code_simp

section \<open>The button callback of \<open>main.py\<close>: what it does before the download\<close>

lemma call_bot [simp]: "the_bot (snd (call fl ev w)) = the_bot w"
  by (simp add: call_def)

lemma call_files [simp]: "files (snd (call fl ev w)) = files w"
  by (simp add: call_def)

lemma call_calls [simp]: "calls (snd (call fl ev w)) = calls w @ [ev]"
  by (simp add: call_def)

lemma call_fst: "fst (call fl ev w) = (case fl (length (calls w)) of None \<Rightarrow> Ok () | Some e \<Rightarrow> Raise e)"
  by (simp add: call_def)

lemma new_calls_append [simp]:
  "calls w' = calls w @ xs \<Longrightarrow> new_calls w w' = xs"
  by (simp add: new_calls_def)

text \<open>Without a valid session the handler answers the query and reports the expiry.\<close>

lemma handle_button_callback_invalid:
  assumes "\<not> is_session_valid now user_id (the_bot w)"
  shows "handle_button_callback fl now y user_id data w =
     and_then (call fl Answer) (\<lambda>_. call fl (EditMessageText SessionExpired)) w"
  using assms
  by (simp add: handle_button_callback_def and_then_def call_def split: option.splits)

lemma answer_then_text:
  "and_then (call fl Answer) (\<lambda>_. call fl ev) w =
     (case fl (length (calls w)) of
        Some e \<Rightarrow> (Raise e, w\<lparr>calls := calls w @ [Answer]\<rparr>)
      | None \<Rightarrow>
          (case fl (Suc (length (calls w))) of None \<Rightarrow> Ok () | Some e \<Rightarrow> Raise e,
           w\<lparr>calls := calls w @ [Answer, ev]\<rparr>))"
  by (simp add: and_then_def call_def split: option.splits)


section \<open>Session validity\<close>

lemma is_session_valid_created:
  "is_session_valid now user_id (create_session t0 user_id url url_type self)
     \<longleftrightarrow> now - t0 < session_timeout self"
  by (simp add: is_session_valid_def create_session_def)

lemma is_session_valid_false:
  "\<not> is_session_valid now user_id self \<longleftrightarrow>
     user_sessions self user_id = None
     \<or> (\<exists>s. user_sessions self user_id = Some s \<and> now - s_timestamp s \<ge> session_timeout self)"
  by (auto simp: is_session_valid_def split: option.splits)

text \<open>
  Claim C3. The bot starts with no session and a timeout of 300 seconds, which no method
  changes. A session created at \<open>t0\<close> by a bot with that timeout is valid at \<open>now\<close> exactly
  when \<open>now < t0 + 300\<close>; the check is false exactly when the user has no session or
  \<open>now - timestamp \<ge> 300\<close>. The one place that reads a session, the button callback,
  checks first: when the check fails, so also on a session that has expired and is still
  in the store, the handler answers the query, reports the expiry and returns; it starts
  no download, clears nothing and leaves the bot and the files as they are. (The clock is
  a real number; the floating-point subtraction of two readings of which neither is more
  than twice the other is exact.)
\<close>

theorem session_valid_for_300_seconds:
  "user_sessions init_bot = Map.empty \<and> session_timeout init_bot = 300
   \<and> session_timeout (create_session t0 user_id url url_type self) = session_timeout self
   \<and> session_timeout (clear_session user_id self) = session_timeout self
   \<and> (session_timeout self = 300 \<longrightarrow>
        (is_session_valid now user_id (create_session t0 user_id url url_type self)
           \<longleftrightarrow> now < t0 + 300)
        \<and> (\<not> is_session_valid now user_id self \<longleftrightarrow>
             user_sessions self user_id = None
             \<or> (\<exists>s. user_sessions self user_id = Some s \<and> now - s_timestamp s \<ge> 300)))
   \<and> (\<not> is_session_valid now user_id (the_bot w) \<longrightarrow>
        new_calls w (snd (handle_button_callback fl now y user_id data w))
          = (if fl (length (calls w)) = None then [Answer, EditMessageText SessionExpired]
             else [Answer])
        \<and> the_bot (snd (handle_button_callback fl now y user_id data w)) = the_bot w
        \<and> files (snd (handle_button_callback fl now y user_id data w)) = files w)"
proof (intro conjI impI)
  show "user_sessions init_bot = Map.empty" "session_timeout init_bot = 300"
    by (simp_all add: init_bot_def)
  show "session_timeout (create_session t0 user_id url url_type self) = session_timeout self"
    by (simp add: create_session_def)
  show "session_timeout (clear_session user_id self) = session_timeout self"
    by (simp add: clear_session_def)
next
  assume t: "session_timeout self = 300"
  show "is_session_valid now user_id (create_session t0 user_id url url_type self)
           \<longleftrightarrow> now < t0 + 300"
    unfolding is_session_valid_created t by linarith
  show "\<not> is_session_valid now user_id self \<longleftrightarrow>
             user_sessions self user_id = None
             \<or> (\<exists>s. user_sessions self user_id = Some s \<and> now - s_timestamp s \<ge> 300)"
    unfolding is_session_valid_false t ..
next
  assume "\<not> is_session_valid now user_id (the_bot w)"
  then have h: "handle_button_callback fl now y user_id data w =
     and_then (call fl Answer) (\<lambda>_. call fl (EditMessageText SessionExpired)) w"
    by (rule handle_button_callback_invalid)
  show "new_calls w (snd (handle_button_callback fl now y user_id data w))
          = (if fl (length (calls w)) = None then [Answer, EditMessageText SessionExpired]
             else [Answer])"
    unfolding h answer_then_text by (simp add: new_calls_def split: option.splits)
  show "the_bot (snd (handle_button_callback fl now y user_id data w)) = the_bot w"
    unfolding h answer_then_text by (simp split: option.splits)
  show "files (snd (handle_button_callback fl now y user_id data w)) = files w"
    unfolding h answer_then_text by (simp split: option.splits)
qed

text \<open>
  User 7 gets a session for a reel at \<open>t0 = 1000\<close>: it is valid at 1299 and at 1299.999,
  and invalid at 1300 and at 5000. A press of the video button at 1300, with the session
  still in the store and no call failing, is answered with the expiry text; the session
  stays where it is.
\<close>

theorem session_valid_for_300_seconds_witness:
  "is_session_valid 1299 7 (create_session 1000 7 (asc ''https://instagram.com/reel/abc'') Reel init_bot)
   \<and> is_session_valid (1299 + 999 / 1000) 7
        (create_session 1000 7 (asc ''https://instagram.com/reel/abc'') Reel init_bot)
   \<and> \<not> is_session_valid 1300 7
        (create_session 1000 7 (asc ''https://instagram.com/reel/abc'') Reel init_bot)
   \<and> \<not> is_session_valid 5000 7
        (create_session 1000 7 (asc ''https://instagram.com/reel/abc'') Reel init_bot)
   \<and> \<not> is_session_valid 5000 8
        (create_session 1000 7 (asc ''https://instagram.com/reel/abc'') Reel init_bot)
   \<and> new_calls
        \<lparr>files = {}, calls = [],
          the_bot = create_session 1000 7 (asc ''https://instagram.com/reel/abc'') Reel init_bot\<rparr>
        (snd (handle_button_callback (\<lambda>k. None) 1300
           \<lparr>ydl_extract_info = Inl (Error []), ydl_download = None, ydl_glob = []\<rparr>
           7 (asc ''video_7'')
           \<lparr>files = {}, calls = [],
             the_bot = create_session 1000 7 (asc ''https://instagram.com/reel/abc'') Reel init_bot\<rparr>))
      = [Answer, EditMessageText SessionExpired]
   \<and> user_sessions (the_bot (snd (handle_button_callback (\<lambda>k. None) 1300
           \<lparr>ydl_extract_info = Inl (Error []), ydl_download = None, ydl_glob = []\<rparr>
           7 (asc ''video_7'')
           \<lparr>files = {}, calls = [],
             the_bot = create_session 1000 7 (asc ''https://instagram.com/reel/abc'') Reel init_bot\<rparr>))) 7
      = Some \<lparr>s_url = asc ''https://instagram.com/reel/abc'', s_url_type = Reel, s_timestamp = 1000\<rparr>"
proof -
  let ?u = "asc ''https://instagram.com/reel/abc''"
  let ?b = "create_session 1000 7 ?u Reel init_bot"
  let ?w = "\<lparr>files = {}, calls = [], the_bot = ?b\<rparr> :: main_world"
  let ?y = "\<lparr>ydl_extract_info = Inl (Error []), ydl_download = None, ydl_glob = []\<rparr>"
  have t: "session_timeout init_bot = 300" by (simp add: init_bot_def)
  have 1: "is_session_valid 1299 7 ?b"
    using session_valid_for_300_seconds [of 1000 7 ?u Reel init_bot 1299] t by simp
  have 2: "is_session_valid (1299 + 999 / 1000) 7 ?b"
    using session_valid_for_300_seconds [of 1000 7 ?u Reel init_bot "1299 + 999 / 1000"] t by simp
  have 3: "\<not> is_session_valid 1300 7 ?b"
    using session_valid_for_300_seconds [of 1000 7 ?u Reel init_bot 1300] t by simp
  have 4: "\<not> is_session_valid 5000 7 ?b"
    using session_valid_for_300_seconds [of 1000 7 ?u Reel init_bot 5000] t by simp
  have n: "user_sessions ?b 8 = None" by (simp add: create_session_def init_bot_def)
  have tb: "session_timeout ?b = 300" by (simp add: create_session_def init_bot_def)
  have 5: "\<not> is_session_valid 5000 8 ?b"
    using session_valid_for_300_seconds [of 0 8 ?u Reel ?b 5000] tb n by simp
  have nv: "\<not> is_session_valid 1300 7 (the_bot ?w)" using 3 by simp
  note H = session_valid_for_300_seconds [of 0 7 ?u Reel init_bot 1300 ?w "\<lambda>k. None" ?y "asc ''video_7''"]
  have 6: "new_calls ?w (snd (handle_button_callback (\<lambda>k. None) 1300 ?y 7 (asc ''video_7'') ?w))
      = [Answer, EditMessageText SessionExpired]"
    using H nv by simp
  have "the_bot (snd (handle_button_callback (\<lambda>k. None) 1300 ?y 7 (asc ''video_7'') ?w)) = ?b"
    using H nv by simp
  then have 7: "user_sessions (the_bot (snd (handle_button_callback (\<lambda>k. None) 1300 ?y 7
      (asc ''video_7'') ?w))) 7
      = Some \<lparr>s_url = ?u, s_url_type = Reel, s_timestamp = 1000\<rparr>"
    by (simp add: create_session_def)
  show ?thesis using 1 2 3 4 5 6 7 by blast
qed

section \<open>Validity is checked before the owner\<close>

text \<open>
  Claim C10. The handler checks the session of the acting user before it looks at the
  callback data. For a user without a valid session of their own the whole run is: answer
  the query, replace the message by the expiry text, return. The run does not depend on
  the callback data, so the owner id in it is neither parsed nor compared, and it reads
  no session but the acting user's: the world it leaves differs from the one it found
  only by the two calls, whoever owns the button and whatever sessions the others have.
\<close>

theorem validity_checked_before_owner:
  "\<not> is_session_valid now user_id (the_bot w) \<longrightarrow>
     handle_button_callback fl now y user_id data w =
       (case fl (length (calls w)) of
          Some e \<Rightarrow> (Raise e, w\<lparr>calls := calls w @ [Answer]\<rparr>)
        | None \<Rightarrow>
            (case fl (Suc (length (calls w))) of None \<Rightarrow> Ok () | Some e \<Rightarrow> Raise e,
             w\<lparr>calls := calls w @ [Answer, EditMessageText SessionExpired]\<rparr>))"
proof
  assume "\<not> is_session_valid now user_id (the_bot w)"
  then have "handle_button_callback fl now y user_id data w =
     and_then (call fl Answer) (\<lambda>_. call fl (EditMessageText SessionExpired)) w"
    by (rule handle_button_callback_invalid)
  then show "handle_button_callback fl now y user_id data w =
       (case fl (length (calls w)) of
          Some e \<Rightarrow> (Raise e, w\<lparr>calls := calls w @ [Answer]\<rparr>)
        | None \<Rightarrow>
            (case fl (Suc (length (calls w))) of None \<Rightarrow> Ok () | Some e \<Rightarrow> Raise e,
             w\<lparr>calls := calls w @ [Answer, EditMessageText SessionExpired]\<rparr>))"
    by (simp only: answer_then_text)
qed

text \<open>
  User 7 has a live session, created at 1000; user 8 has none and presses the video
  button of user 7 at 1100. User 8 is told that the session has expired, and the session
  of user 7 is still there and still valid.
\<close>

theorem validity_checked_before_owner_witness:
  "is_session_valid 1100 7
     (create_session 1000 7 (asc ''https://instagram.com/reel/abc'') Reel init_bot)
   \<and> callback_owner (asc ''video_7'') = Some 7
   \<and> handle_button_callback (\<lambda>k. None) 1100
        \<lparr>ydl_extract_info = Inl (Error []), ydl_download = None, ydl_glob = []\<rparr>
        8 (asc ''video_7'')
        \<lparr>files = {}, calls = [],
          the_bot = create_session 1000 7 (asc ''https://instagram.com/reel/abc'') Reel init_bot\<rparr>
      = (Ok (),
         \<lparr>files = {}, calls = [Answer, EditMessageText SessionExpired],
           the_bot = create_session 1000 7 (asc ''https://instagram.com/reel/abc'') Reel init_bot\<rparr>)"
proof -
  let ?b = "create_session 1000 7 (asc ''https://instagram.com/reel/abc'') Reel init_bot"
  let ?w = "\<lparr>files = {}, calls = [], the_bot = ?b\<rparr> :: main_world"
  have v: "is_session_valid 1100 7 ?b"
    by (simp add: is_session_valid_def create_session_def init_bot_def)
  have o: "callback_owner (asc ''video_7'') = Some 7" by code_simp
  have n: "\<not> is_session_valid 1100 8 (the_bot ?w)"
    by (simp add: is_session_valid_def create_session_def init_bot_def)
  show ?thesis
    using validity_checked_before_owner [of 1100 8 ?w "\<lambda>k. None" _ "asc ''video_7''"] n v o
    by simp
qed

section \<open>The button of another user\<close>





end
